theory Spec2Isabelle
  imports Main "HOL-Library.Word" "HOL-Library.AList"
begin

unbundle bit_operations_syntax

section \<open>Values of the x2j wrapper and of AnyXml\<close>

text \<open>
  The Go code works on \<^verbatim>\<open>interface{}\<close> values of the JSON shapes: nil, string, float64,
  bool, \<^verbatim>\<open>[]interface{}\<close> and \<^verbatim>\<open>map[string]interface{}\<close>. A float64 is kept as its
  IEEE-754 binary64 bit pattern. A Go map is kept as an association list whose order is
  the order in which \<^verbatim>\<open>range\<close> visits the entries in the run at hand (Go leaves that
  order open, so a statement about every list is a statement about every order); lookup
  is \<open>map_of\<close>.
\<close>

type_synonym float64 = "64 word"

datatype gvalue =
    GNil
  | GStr string
  | GFloat float64
  | GBool bool
  | GList "gvalue list"
  | GMap "(string \<times> gvalue) list"

type_synonym gmap = "(string \<times> gvalue) list"

text \<open>
  The errors of \<^verbatim>\<open>x2j.go\<close>, one constructor for each \<^verbatim>\<open>errors.New\<close> with the variable
  part of its message, \<open>Panic\<close> for a run-time panic, and \<open>HelperError\<close> for an error
  handed back by a function that is not part of the two files.
\<close>

datatype error =
    NoKeysBeyond string
  | NoKeyInMap string
  | NoAttrName string
  | NoAttrPair string gvalue
  | NoListMember
  | NoMatch
  | NotNameValue string
  | Panic
  | HelperError string

section \<open>The type recaster\<close>

text \<open>
  \<^verbatim>\<open>strconv.ParseBool\<close> of the Go standard library accepts exactly twelve spellings.
\<close>

definition ParseBool :: "string \<Rightarrow> bool option" where
  "ParseBool str =
     (if str \<in> set [''1'', ''t'', ''T'', ''true'', ''TRUE'', ''True''] then Some True
      else if str \<in> set [''0'', ''f'', ''F'', ''false'', ''FALSE'', ''False''] then Some False
      else None)"

text \<open>
  \<^verbatim>\<open>strconv.ParseFloat(s, 64)\<close> is a parameter \<open>pf\<close> of the model: \<open>pf s = Some f\<close> when
  the standard library parses \<open>s\<close> to the float with bit pattern \<open>f\<close>, \<open>None\<close> when it
  returns an error.
\<close>

definition recast :: "(string \<Rightarrow> float64 option) \<Rightarrow> string \<Rightarrow> bool \<Rightarrow> gvalue" where
  "recast pf s r =
     (if r then
        (case pf s of
           Some f \<Rightarrow> GFloat f
         | None \<Rightarrow> (case ParseBool s of Some b \<Rightarrow> GBool b | None \<Rightarrow> GStr s))
      else GStr s)"

text \<open>
  A sample instance of the parameter for evaluating examples: the graph of
  \<^verbatim>\<open>strconv.ParseFloat\<close> at the strings "0", "1" and "7"; the sample rejects every
  other string.
\<close>

definition ParseFloat_sample :: "string \<Rightarrow> float64 option" where
  "ParseFloat_sample s =
     (if s = ''0'' then Some 0
      else if s = ''1'' then Some 0x3FF0000000000000
      else if s = ''7'' then Some 0x401C000000000000
      else None)"

section \<open>Helpers of the Go run time and standard library\<close>

text \<open>
  \<^verbatim>\<open>strings.Split(s, sep)\<close> for a separator of one byte: the pieces of \<open>s\<close> between the
  occurrences of the separator, so a string with \<open>n\<close> separators gives \<open>n + 1\<close> pieces
  and the empty string gives one empty piece.
\<close>

fun Split :: "string \<Rightarrow> char \<Rightarrow> string list" where
  "Split [] sep = [[]]"
| "Split (c # cs) sep =
     (if c = sep then [] # Split cs sep
      else (case Split cs sep of
              [] \<Rightarrow> [[c]]
            | w # ws \<Rightarrow> (c # w) # ws))"

text \<open>
  \<open>==\<close> on two float64: a NaN equals nothing, the two zeros are equal, and otherwise
  the bit patterns decide.
\<close>

definition isNaN :: "float64 \<Rightarrow> bool" where
  "isNaN f \<longleftrightarrow>
     f AND 0x7FF0000000000000 = 0x7FF0000000000000 \<and> f AND 0x000FFFFFFFFFFFFF \<noteq> 0"

definition float64_eq :: "float64 \<Rightarrow> float64 \<Rightarrow> bool" where
  "float64_eq a b \<longleftrightarrow>
     \<not> isNaN a \<and> \<not> isNaN b \<and>
     (a = b \<or> (a AND 0x7FFFFFFFFFFFFFFF = 0 \<and> b AND 0x7FFFFFFFFFFFFFFF = 0))"

text \<open>
  \<open>==\<close> on two interface values: values of different dynamic types are unequal; two
  values of one comparable type are compared; two slices or two maps make the comparison
  panic (\<open>None\<close>).
\<close>

fun iface_eq :: "gvalue \<Rightarrow> gvalue \<Rightarrow> bool option" where
  "iface_eq GNil GNil = Some True"
| "iface_eq (GStr a) (GStr b) = Some (a = b)"
| "iface_eq (GFloat a) (GFloat b) = Some (float64_eq a b)"
| "iface_eq (GBool a) (GBool b) = Some (a = b)"
| "iface_eq (GList a) (GList b) = None"
| "iface_eq (GMap a) (GMap b) = None"
| "iface_eq a b = Some False"

text \<open>\<^verbatim>\<open>key[1:]\<close>: slicing the empty string from index 1 panics.\<close>

definition from1 :: "string \<Rightarrow> string option" where
  "from1 key = (case key of [] \<Rightarrow> None | c # cs \<Rightarrow> Some cs)"

section \<open>Attribute matching\<close>

text \<open>
  The loop of \<^verbatim>\<open>hasAttributes\<close> over the entries of the filter \<open>a\<close>, for the map \<open>nv\<close>:
  \<open>None\<close> when every entry matched, the error of the first entry that did not.
\<close>

fun attrs_loop :: "gmap \<Rightarrow> gmap \<Rightarrow> error option" where
  "attrs_loop nv [] = None"
| "attrs_loop nv ((key, val) # a) =
     (case map_of nv key of
        None \<Rightarrow> (case from1 key of None \<Rightarrow> Some Panic | Some n \<Rightarrow> Some (NoAttrName n))
      | Some vv \<Rightarrow>
          (case iface_eq val vv of
             None \<Rightarrow> Some Panic
           | Some False \<Rightarrow>
               (case from1 key of None \<Rightarrow> Some Panic | Some n \<Rightarrow> Some (NoAttrPair n val))
           | Some True \<Rightarrow> attrs_loop nv a))"

fun hasAttributes :: "gvalue \<Rightarrow> gmap \<Rightarrow> error + gvalue"
  and hasAttributes_members :: "gvalue list \<Rightarrow> gmap \<Rightarrow> error + gvalue" where
  "hasAttributes (GList vs) a = hasAttributes_members vs a"
| "hasAttributes (GMap nv) a =
     (case attrs_loop nv a of
        Some e \<Rightarrow> Inl e
      | None \<Rightarrow> (case map_of nv ''#text'' of Some vv \<Rightarrow> Inr vv | None \<Rightarrow> Inr (GMap nv)))"
| "hasAttributes GNil a = Inl NoMatch"
| "hasAttributes (GStr s) a = Inl NoMatch"
| "hasAttributes (GFloat f) a = Inl NoMatch"
| "hasAttributes (GBool b) a = Inl NoMatch"
| "hasAttributes_members [] a = Inl NoListMember"
| "hasAttributes_members (vv # vs) a =
     (case hasAttributes vv a of
        Inr vvv \<Rightarrow> Inr vvv
      | Inl e \<Rightarrow> if e = Panic then Inl Panic else hasAttributes_members vs a)"

section \<open>MapValue\<close>

text \<open>
  The first loop of \<^verbatim>\<open>MapValue\<close>, run when the flag is given as the one value true: it
  visits the entries \<open>kvs\<close> of the caller's map and stores the recast of each value back
  under its key. The type assertion \<^verbatim>\<open>v.(string)\<close> panics on a value that is no
  string. The result is the error, if any, and the map as the loop leaves it.
\<close>

fun recast_attr :: "(string \<Rightarrow> float64 option) \<Rightarrow> gmap \<Rightarrow> gmap \<Rightarrow> error option \<times> gmap" where
  "recast_attr pf [] attr = (None, attr)"
| "recast_attr pf ((k, v) # kvs) attr =
     (case v of
        GStr s \<Rightarrow> recast_attr pf kvs (AList.update k (recast pf s True) attr)
      | _ \<Rightarrow> (Some Panic, attr))"

text \<open>
  The loop over the keys of the path, with the loop's variables \<open>m\<close>, \<open>v\<close>, \<open>isMap\<close> and
  \<open>okey\<close>.
\<close>

fun MapValue_keys :: "gmap \<Rightarrow> gvalue \<Rightarrow> bool \<Rightarrow> string \<Rightarrow> string list \<Rightarrow> error + gvalue" where
  "MapValue_keys m v isMap okey [] = Inr v"
| "MapValue_keys m v isMap okey (key # keys) =
     (if \<not> isMap then Inl (NoKeysBeyond okey)
      else (case map_of m key of
              None \<Rightarrow> Inl (NoKeyInMap key)
            | Some v' \<Rightarrow>
                (case v' of
                   GMap m' \<Rightarrow> MapValue_keys m' v' True key keys
                 | _ \<Rightarrow> MapValue_keys m v' False key keys)))"

text \<open>
  The first statement of \<^verbatim>\<open>MapValue\<close>: the recast of the filter when the variadic \<open>r\<close>
  is the one value true. The filter \<open>attr\<close> is \<open>None\<close> for a nil map, over which the
  loop does not run. The result is the error, if any, and the caller's map afterwards.
\<close>

definition MapValue_recast ::
  "(string \<Rightarrow> float64 option) \<Rightarrow> gmap option \<Rightarrow> bool list \<Rightarrow> error option \<times> gmap option" where
  "MapValue_recast pf attr r =
     (if length r = 1 \<and> r ! 0 = True then
        (case attr of
           None \<Rightarrow> (None, None)
         | Some a \<Rightarrow> (case recast_attr pf a a of (e, a') \<Rightarrow> (e, Some a')))
      else (None, attr))"

text \<open>
  A Go map is a reference, and the caller may pass as \<open>attr\<close> the root itself or a map
  that the root holds at some depth. The only assignment of \<^verbatim>\<open>MapValue\<close> is
  \<^verbatim>\<open>attr[k] = ...\<close>, so the filter is the one map whose identity matters to a call: every
  other map is only read and is a value. A shared value is a value in which the filter
  map may occur; \<open>FilterMap\<close> stands for the very map that the caller passes as \<open>attr\<close>.
\<close>

datatype svalue =
  SNil
| SStr string
| SFloat float64
| SBool bool
| SList "svalue list"
| SMap "(string \<times> svalue) list"
| FilterMap

text \<open>What a shared value reads as while the filter map holds the entries \<open>a\<close>.\<close>

fun reads :: "gmap \<Rightarrow> svalue \<Rightarrow> gvalue"
  and reads_entries :: "gmap \<Rightarrow> (string \<times> svalue) list \<Rightarrow> gmap"
  and reads_members :: "gmap \<Rightarrow> svalue list \<Rightarrow> gvalue list" where
  "reads a SNil = GNil"
| "reads a (SStr s) = GStr s"
| "reads a (SFloat f) = GFloat f"
| "reads a (SBool b) = GBool b"
| "reads a (SList vs) = GList (reads_members a vs)"
| "reads a (SMap m) = GMap (reads_entries a m)"
| "reads a FilterMap = GMap a"
| "reads_entries a [] = []"
| "reads_entries a ((k, v) # m) = (k, reads a v) # reads_entries a m"
| "reads_members a [] = []"
| "reads_members a (v # vs) = reads a v # reads_members a vs"

text \<open>
  The root \<open>m\<close> of a call: the filter map itself, or a map of its own with shared values
  as entries.
\<close>

datatype sroot = RootIsFilter | Root "(string \<times> svalue) list"

fun root_entries :: "gmap \<Rightarrow> sroot \<Rightarrow> gmap" where
  "root_entries a RootIsFilter = a"
| "root_entries a (Root m) = reads_entries a m"

text \<open>The entries of the filter map; a nil map has none.\<close>

definition entries_of :: "gmap option \<Rightarrow> gmap" where
  "entries_of attr = (case attr of None \<Rightarrow> [] | Some a \<Rightarrow> a)"

text \<open>Whether the filter map occurs in a shared value, and in a root.\<close>

fun holds_filter :: "svalue \<Rightarrow> bool"
  and holds_filter_entries :: "(string \<times> svalue) list \<Rightarrow> bool"
  and holds_filter_members :: "svalue list \<Rightarrow> bool" where
  "holds_filter SNil = False"
| "holds_filter (SStr s) = False"
| "holds_filter (SFloat f) = False"
| "holds_filter (SBool b) = False"
| "holds_filter (SList vs) = holds_filter_members vs"
| "holds_filter (SMap m) = holds_filter_entries m"
| "holds_filter FilterMap = True"
| "holds_filter_entries [] = False"
| "holds_filter_entries ((k, v) # m) = (holds_filter v \<or> holds_filter_entries m)"
| "holds_filter_members [] = False"
| "holds_filter_members (v # vs) = (holds_filter v \<or> holds_filter_members vs)"

fun root_holds_filter :: "sroot \<Rightarrow> bool" where
  "root_holds_filter RootIsFilter = True"
| "root_holds_filter (Root m) = holds_filter_entries m"

text \<open>
  What a call leaves: the value or error returned, the caller's filter map and the
  caller's root as they read when the call returns.
\<close>

record outcome =
  returned :: "error + gvalue"
  filter_after :: "gmap option"
  root_after :: gmap

text \<open>
  \<^verbatim>\<open>MapValue(m, path, attr, r...)\<close>. The recast loop runs first and writes to the filter
  map; the walk that follows reads the root as it then stands, with the recast values
  wherever the root holds the filter map. The value returned is given as it reads when
  the call returns.
\<close>

definition MapValue ::
  "(string \<Rightarrow> float64 option) \<Rightarrow> sroot \<Rightarrow> string \<Rightarrow> gmap option \<Rightarrow> bool list \<Rightarrow> outcome" where
  "MapValue pf root path attr r =
     (case MapValue_recast pf attr r of
        (Some e, attr1) \<Rightarrow>
          \<lparr>returned = Inl e, filter_after = attr1,
           root_after = root_entries (entries_of attr1) root\<rparr>
      | (None, attr1) \<Rightarrow>
          (let m = root_entries (entries_of attr1) root in
           case Split path CHR ''.'' of
             [] \<Rightarrow> \<lparr>returned = Inl Panic, filter_after = attr1, root_after = m\<rparr>
           | key0 # rest \<Rightarrow>
               if key0 = [] \<and> (case attr1 of None \<Rightarrow> True | Some a \<Rightarrow> length a = 0)
               then \<lparr>returned = Inr (GMap m), filter_after = attr1, root_after = m\<rparr>
               else (case MapValue_keys m (GMap m) True [] (key0 # rest) of
                       Inl e \<Rightarrow> \<lparr>returned = Inl e, filter_after = attr1, root_after = m\<rparr>
                     | Inr v \<Rightarrow>
                         (case attr1 of
                            None \<Rightarrow> \<lparr>returned = Inr v, filter_after = attr1, root_after = m\<rparr>
                          | Some a \<Rightarrow>
                              \<lparr>returned = hasAttributes v a, filter_after = attr1,
                               root_after = m\<rparr>))))"

section \<open>NewAttributeMap\<close>

fun NewAttributeMap_loop :: "string list \<Rightarrow> gmap \<Rightarrow> error + gmap" where
  "NewAttributeMap_loop [] m = Inr m"
| "NewAttributeMap_loop (v # kv) m =
     (case Split v CHR '':'' of
        [n, x] \<Rightarrow> NewAttributeMap_loop kv (AList.update (CHR ''-'' # n) (GStr x) m)
      | _ \<Rightarrow> Inl (NotNameValue v))"

text \<open>The result \<open>Inr None\<close> is the pair (nil, nil).\<close>

definition NewAttributeMap :: "string list \<Rightarrow> error + gmap option" where
  "NewAttributeMap kv =
     (if length kv = 0 then Inr None
      else (case NewAttributeMap_loop kv [] of Inl e \<Rightarrow> Inl e | Inr m \<Rightarrow> Inr (Some m)))"

section \<open>ValuesForKey\<close>

text \<open>
  \<^verbatim>\<open>hasKey(iv, key, ret)\<close> appends to the slice behind \<open>ret\<close>; the model takes the slice
  and returns it.
\<close>

fun hasKey :: "gvalue \<Rightarrow> string \<Rightarrow> gvalue list \<Rightarrow> gvalue list"
  and hasKey_entries :: "gmap \<Rightarrow> string \<Rightarrow> gvalue list \<Rightarrow> gvalue list"
  and hasKey_members :: "gvalue list \<Rightarrow> string \<Rightarrow> gvalue list \<Rightarrow> gvalue list" where
  "hasKey (GMap vv) key ret =
     hasKey_entries vv key (case map_of vv key of Some v \<Rightarrow> ret @ [v] | None \<Rightarrow> ret)"
| "hasKey (GList vs) key ret = hasKey_members vs key ret"
| "hasKey GNil key ret = ret"
| "hasKey (GStr s) key ret = ret"
| "hasKey (GFloat f) key ret = ret"
| "hasKey (GBool b) key ret = ret"
| "hasKey_entries [] key ret = ret"
| "hasKey_entries ((k, v) # vv) key ret = hasKey_entries vv key (hasKey v key ret)"
| "hasKey_members [] key ret = ret"
| "hasKey_members (v # vs) key ret = hasKey_members vs key (hasKey v key ret)"

text \<open>The nil slice returned for no value is the empty list.\<close>

definition ValuesForKey :: "gmap \<Rightarrow> string \<Rightarrow> gvalue list" where
  "ValuesForKey m key =
     (let ret = hasKey (GMap m) key [] in if length ret > 0 then ret else [])"

section \<open>AnyXml and AnyXmlIndent\<close>

text \<open>
  \<^verbatim>\<open>anyxml.go\<close> uses declarations of the package that are in neither file. They are
  parameters of the model, collected in a record:
  the constant \<^verbatim>\<open>DefaultRootTag\<close>; the package variable \<^verbatim>\<open>useGoXmlEmptyElemSyntax\<close>;
  the struct \<^verbatim>\<open>pretty\<close>, of which the file sets the fields \<open>indent\<close>, \<open>padding\<close> and
  \<open>start\<close> (its other fields are the record's extension, \<open>pretty_zero\<close> their zero
  value) and calls the method \<^verbatim>\<open>Indent\<close>; the methods \<^verbatim>\<open>Xml\<close> and \<^verbatim>\<open>XmlIndent\<close> of
  \<^verbatim>\<open>Map\<close>; and \<^verbatim>\<open>marshalMapToXmlIndent(doIndent, s, key, value, p)\<close>, given as the text
  it writes to the buffer \<open>s\<close>, the error it returns and the \<^verbatim>\<open>pretty\<close> it leaves behind
  the pointer \<open>p\<close>.
\<close>

record pretty =
  indent :: string
  padding :: string
  start :: int

record 'x env =
  DefaultRootTag :: string
  useGoXmlEmptyElemSyntax :: bool
  pretty_zero :: 'x
  Indent :: "'x pretty_scheme \<Rightarrow> 'x pretty_scheme"
  marshalMapToXmlIndent ::
    "bool \<Rightarrow> string \<Rightarrow> gvalue \<Rightarrow> 'x pretty_scheme \<Rightarrow> string \<times> error option \<times> 'x pretty_scheme"
  Map_Xml :: "gmap \<Rightarrow> string \<Rightarrow> string \<times> error option"
  Map_XmlIndent :: "gmap \<Rightarrow> string \<Rightarrow> string \<Rightarrow> string \<Rightarrow> string \<times> error option"

definition DefaultElementTag :: string where
  "DefaultElementTag = ''element''"

text \<open>\<^verbatim>\<open>new(pretty)\<close>: every field has its zero value.\<close>

definition new_pretty :: "'x env \<Rightarrow> 'x pretty_scheme" where
  "new_pretty env = \<lparr>indent = [], padding = [], start = 0, \<dots> = pretty_zero env\<rparr>"

text \<open>The choice of the root tag and of the element tag from the variadic \<open>tags\<close>.\<close>

definition root_tag :: "'x env \<Rightarrow> string list \<Rightarrow> string" where
  "root_tag env tags =
     (if length tags = 1 \<or> length tags = 2 then tags ! 0 else DefaultRootTag env)"

definition element_tag :: "string list \<Rightarrow> string" where
  "element_tag tags = (if length tags = 2 then tags ! 1 else DefaultElementTag)"

text \<open>
  The \<^verbatim>\<open>range\<close> loop over the entries of a list member that is a map, run by the code
  when the map has one entry. The state is the buffer, \<open>err\<close> and the \<^verbatim>\<open>pretty\<close>.
\<close>

fun range_tags ::
  "'x env \<Rightarrow> bool \<Rightarrow> gmap \<Rightarrow> string \<times> error option \<times> 'x pretty_scheme
     \<Rightarrow> string \<times> error option \<times> 'x pretty_scheme" where
  "range_tags env doIndent [] st = st"
| "range_tags env doIndent ((tag, val) # m) (s, err, p) =
     (case marshalMapToXmlIndent env doIndent tag val p of
        (out, err', p') \<Rightarrow> range_tags env doIndent m (s @ out, err', p'))"

text \<open>
  The loop of \<^verbatim>\<open>AnyXml\<close> over the members of a list: the buffer \<open>s\<close> and \<open>err\<close> as the
  loop leaves them (it breaks at the first member whose encoding returns an error).
\<close>

fun AnyXml_members ::
  "'x env \<Rightarrow> string \<Rightarrow> gvalue list \<Rightarrow> string \<Rightarrow> 'x pretty_scheme \<Rightarrow> string \<times> error option" where
  "AnyXml_members env et [] s p = (s, None)"
| "AnyXml_members env et (vv # vs) s p =
     (case (case vv of
              GMap m \<Rightarrow>
                if length m = 1 then range_tags env False m (s, None, p)
                else (case marshalMapToXmlIndent env False et vv p of
                        (out, err, p') \<Rightarrow> (s @ out, err, p'))
            | _ \<Rightarrow> (case marshalMapToXmlIndent env False et vv p of
                      (out, err, p') \<Rightarrow> (s @ out, err, p'))) of
        (s', err, p') \<Rightarrow>
          if err \<noteq> None then (s', err) else AnyXml_members env et vs s' p')"

text \<open>
  \<^verbatim>\<open>AnyXml(v, tags...)\<close>: the bytes and the error returned. Values of Go types other than
  the JSON shapes (a struct goes to \<^verbatim>\<open>xml.Marshal\<close>) are outside \<open>gvalue\<close>. After the loop
  over a list, the write of the closing tag assigns \<open>err\<close> again, and a write to a
  \<^verbatim>\<open>bytes.Buffer\<close> returns no error.
\<close>

definition AnyXml :: "'x env \<Rightarrow> gvalue \<Rightarrow> string list \<Rightarrow> string \<times> error option" where
  "AnyXml env v tags =
     (let rt = root_tag env tags; et = element_tag tags in
      case v of
        GNil \<Rightarrow>
          if useGoXmlEmptyElemSyntax env then (''<'' @ rt @ ''></'' @ rt @ ''>'', None)
          else (''<'' @ rt @ ''/>'', None)
      | GList vs \<Rightarrow>
          (case AnyXml_members env et vs (''<'' @ rt @ ''>'') (new_pretty env) of
             (s, err) \<Rightarrow> (s @ ''</'' @ rt @ ''>'', None))
      | GMap m \<Rightarrow> Map_Xml env m rt
      | _ \<Rightarrow> (case marshalMapToXmlIndent env False rt v (new_pretty env) of
                (out, err, p') \<Rightarrow> (out, err)))"

text \<open>
  The loop of \<^verbatim>\<open>AnyXmlIndent\<close> over the members of a list. For a map that has not one
  entry, the write of the newline assigns \<open>err\<close> again.
\<close>

fun AnyXmlIndent_members ::
  "'x env \<Rightarrow> string \<Rightarrow> gvalue list \<Rightarrow> string \<Rightarrow> 'x pretty_scheme \<Rightarrow> string \<times> error option" where
  "AnyXmlIndent_members env et [] s p = (s, None)"
| "AnyXmlIndent_members env et (vv # vs) s p =
     (case (case vv of
              GMap m \<Rightarrow>
                if length m = 1 then range_tags env True m (s, None, p)
                else (case marshalMapToXmlIndent env True et vv (p\<lparr>start := 1\<rparr>) of
                        (out, err, p') \<Rightarrow> (s @ out @ [CHR 0x0A], None, p'))
            | _ \<Rightarrow> (case marshalMapToXmlIndent env True et vv (p\<lparr>start := 0\<rparr>) of
                      (out, err, p') \<Rightarrow> (s @ out, err, p'))) of
        (s', err, p') \<Rightarrow>
          if err \<noteq> None then (s', err) else AnyXmlIndent_members env et vs s' p')"

definition AnyXmlIndent ::
  "'x env \<Rightarrow> gvalue \<Rightarrow> string \<Rightarrow> string \<Rightarrow> string list \<Rightarrow> string \<times> error option" where
  "AnyXmlIndent env v prefix indent' tags =
     (let rt = root_tag env tags; et = element_tag tags in
      case v of
        GNil \<Rightarrow>
          if useGoXmlEmptyElemSyntax env then (prefix @ ''<'' @ rt @ ''></'' @ rt @ ''>'', None)
          else (prefix @ ''<'' @ rt @ ''/>'', None)
      | GList vs \<Rightarrow>
          (case AnyXmlIndent_members env et vs (''<'' @ rt @ ''>'' @ [CHR 0x0A])
                  (Indent env ((new_pretty env)\<lparr>indent := indent', padding := prefix\<rparr>)) of
             (s, err) \<Rightarrow> (s @ ''</'' @ rt @ ''>'', None))
      | GMap m \<Rightarrow> Map_XmlIndent env m prefix indent' rt
      | _ \<Rightarrow> (case marshalMapToXmlIndent env True rt v
                       ((new_pretty env)\<lparr>indent := indent', padding := prefix\<rparr>) of
                (out, err, p') \<Rightarrow> (out, err)))"

text \<open>
  Modelled from the spec: \<^verbatim>\<open>marshalMapToXmlIndent\<close> is in a file of the package that is
  not among the sources. The spec gives the encoding of a bare Scalar under a tag as
  \<^verbatim>\<open><tag>scalar-text</tag>\<close>, and has the encoding fail on structurally invalid output, of
  which it names the empty tag name. The sample below follows it: an empty tag is an
  error, a string under a tag is written between the opening and the closing tag, and
  the shapes whose text the spec does not give are an error of the sample, which the
  examples do not reach. The other fields of the sample are arbitrary but fixed: the
  root tag "doc", the empty-element syntax unset.
\<close>

definition marshal_sample ::
  "bool \<Rightarrow> string \<Rightarrow> gvalue \<Rightarrow> unit pretty_scheme \<Rightarrow> string \<times> error option \<times> unit pretty_scheme" where
  "marshal_sample doIndent tag v p =
     (if tag = [] then ([], Some (HelperError ''invalid tag name''), p)
      else (case v of
              GStr s \<Rightarrow> (''<'' @ tag @ ''>'' @ s @ ''</'' @ tag @ ''>'', None, p)
            | _ \<Rightarrow> ([], Some (HelperError ''shape outside the sample''), p)))"

definition sample_env :: "unit env" where
  "sample_env =
     \<lparr>DefaultRootTag = ''doc'', useGoXmlEmptyElemSyntax = False, pretty_zero = (),
      Indent = (\<lambda>p. p), marshalMapToXmlIndent = marshal_sample,
      Map_Xml = (\<lambda>m rt. ([], Some (HelperError ''shape outside the sample''))),
      Map_XmlIndent = (\<lambda>m prefix ind rt. ([], Some (HelperError ''shape outside the sample'')))\<rparr>"

section \<open>Notions of the specification\<close>




text \<open>
  The value a path leads to when every step goes through a mapping that has the key.
\<close>

fun follow :: "gvalue \<Rightarrow> string list \<Rightarrow> gvalue option" where
  "follow v [] = Some v"
| "follow v (k # ks) =
     (case v of
        GMap m \<Rightarrow> (case map_of m k of None \<Rightarrow> None | Some v' \<Rightarrow> follow v' ks)
      | _ \<Rightarrow> None)"

text \<open>
  The walk in the words of the spec: one key at a time; a current value that is a
  mapping without the key fails with that key, and a current value that is no mapping
  fails with the last key consumed.
\<close>

fun walk :: "gvalue \<Rightarrow> string \<Rightarrow> string list \<Rightarrow> error + gvalue" where
  "walk cur okey [] = Inr cur"
| "walk cur okey (k # ks) =
     (case cur of
        GMap m \<Rightarrow> (case map_of m k of None \<Rightarrow> Inl (NoKeyInMap k) | Some v \<Rightarrow> walk v k ks)
      | _ \<Rightarrow> Inl (NoKeysBeyond okey))"

text \<open>
  The values stored under a key at any depth of a tree, as the spec words the result of
  the key search: the value of the key in a mapping, and what is stored under the key in
  any value of a mapping or in any member of a list.
\<close>

inductive stored_under :: "string \<Rightarrow> gvalue \<Rightarrow> gvalue \<Rightarrow> bool" for key :: string where
  here: "map_of vv key = Some x \<Longrightarrow> stored_under key (GMap vv) x"
| in_entry: "(k, v) \<in> set vv \<Longrightarrow> stored_under key v x \<Longrightarrow> stored_under key (GMap vv) x"
| in_member: "v \<in> set vs \<Longrightarrow> stored_under key v x \<Longrightarrow> stored_under key (GList vs) x"

text \<open>
  The entry of the filter after the recast: a string value is replaced by its recast.
\<close>

definition recast_entry :: "(string \<Rightarrow> float64 option) \<Rightarrow> string \<times> gvalue \<Rightarrow> string \<times> gvalue" where
  "recast_entry pf e = (fst e, (case snd e of GStr s \<Rightarrow> recast pf s True | v \<Rightarrow> v))"

definition is_string :: "gvalue \<Rightarrow> bool" where
  "is_string v = (case v of GStr s \<Rightarrow> True | _ \<Rightarrow> False)"

text \<open>
  The tag and the value with which the spec has a member of a top-level list encoded:
  the key and the value of a mapping with exactly one key, the element tag and the member
  itself otherwise.
\<close>

definition member_tag :: "string \<Rightarrow> gvalue \<Rightarrow> string \<times> gvalue" where
  "member_tag et vv = (case vv of GMap [(k, v)] \<Rightarrow> (k, v) | _ \<Rightarrow> (et, vv))"

text \<open>
  The text of the members of a list, each encoded with its \<open>member_tag\<close>, up to and
  with the first member whose encoding returns an error.
\<close>

fun members_text :: "'x env \<Rightarrow> string \<Rightarrow> gvalue list \<Rightarrow> 'x pretty_scheme \<Rightarrow> string" where
  "members_text env et [] p = []"
| "members_text env et (vv # vs) p =
     (case marshalMapToXmlIndent env False (fst (member_tag et vv)) (snd (member_tag et vv)) p of
        (out, err, p') \<Rightarrow> out @ (if err = None then members_text env et vs p' else []))"

section \<open>The order of the parses in the recaster\<close>

text \<open>
  C1. With the flag on, \<open>recast\<close> returns the float when \<^verbatim>\<open>ParseFloat\<close> accepts the
  string; otherwise the boolean when \<^verbatim>\<open>ParseBool\<close> accepts it; otherwise the string
  itself. As \<^verbatim>\<open>ParseFloat\<close> reads "1" as 1.0 (bits \<open>0x3FF0000000000000\<close>) and "0" as
  0.0 (bits \<open>0\<close>), these two strings come back as those floats and as no boolean.
\<close>

theorem recast_order:
  assumes one: "pf ''1'' = Some 0x3FF0000000000000" and zero: "pf ''0'' = Some 0"
  shows "recast pf s True =
           (case pf s of
              Some f \<Rightarrow> GFloat f
            | None \<Rightarrow> (case ParseBool s of Some b \<Rightarrow> GBool b | None \<Rightarrow> GStr s))
         \<and> recast pf ''1'' True = GFloat 0x3FF0000000000000
         \<and> recast pf ''0'' True = GFloat 0
         \<and> (\<forall>b. recast pf ''1'' True \<noteq> GBool b \<and> recast pf ''0'' True \<noteq> GBool b)"
  using one zero by (simp add: recast_def)

theorem recast_order_witness:
  "ParseFloat_sample ''1'' = Some 0x3FF0000000000000 \<and> ParseFloat_sample ''0'' = Some 0
   \<and> recast ParseFloat_sample ''true'' True = GBool True
   \<and> recast ParseFloat_sample ''abc'' True = GStr ''abc''
   \<and> recast ParseFloat_sample ''7'' True = GFloat 0x401C000000000000
   \<and> recast ParseFloat_sample ''1'' True = GFloat 0x3FF0000000000000
   \<and> recast ParseFloat_sample ''0'' True = GFloat 0"
proof -
  have one: "ParseFloat_sample ''1'' = Some 0x3FF0000000000000"
    and zero: "ParseFloat_sample ''0'' = Some 0"
    by (simp_all add: ParseFloat_sample_def)
  have t: "ParseFloat_sample ''true'' = None" "ParseFloat_sample ''abc'' = None"
     "ParseFloat_sample ''7'' = Some 0x401C000000000000"
    by (simp_all add: ParseFloat_sample_def)
  have b: "ParseBool ''true'' = Some True" "ParseBool ''abc'' = None"
    by (simp_all add: ParseBool_def)
  from recast_order [OF one zero, of "''true''"] recast_order [OF one zero, of "''abc''"]
    recast_order [OF one zero, of "''7''"]
  show ?thesis using one zero t b by simp
qed

section \<open>The boolean spellings the recaster knows\<close>

text \<open>
  C6, as the code has it. The claim asks for every case variant of "true", "t", "1",
  "false", "f" and "0" to come back as a boolean. The variant "tRue" is no float and is
  none of the spellings of \<^verbatim>\<open>ParseBool\<close>: it comes back as the string it was.
\<close>

theorem recast_case_variant_counterexample:
  "ParseFloat_sample ''tRue'' = None \<and> ParseBool ''tRue'' = None
   \<and> recast ParseFloat_sample ''tRue'' True = GStr ''tRue''"
  by (simp add: recast_def ParseBool_def ParseFloat_sample_def)

text \<open>
  C6, amended. For a string that \<^verbatim>\<open>ParseFloat\<close> rejects: the spellings "t", "T", "true",
  "TRUE" and "True" give the boolean true; "f", "F", "false", "FALSE" and "False" give
  false; and a string that is none of the twelve spellings of \<^verbatim>\<open>ParseBool\<close> is returned
  unchanged.
\<close>

theorem recast_bool_spellings:
  assumes "pf s = None"
  shows "(s \<in> {''t'', ''T'', ''true'', ''TRUE'', ''True''} \<longrightarrow> recast pf s True = GBool True)
       \<and> (s \<in> {''f'', ''F'', ''false'', ''FALSE'', ''False''} \<longrightarrow> recast pf s True = GBool False)
       \<and> (s \<notin> {''1'', ''t'', ''T'', ''true'', ''TRUE'', ''True'',
                 ''0'', ''f'', ''F'', ''false'', ''FALSE'', ''False''} \<longrightarrow> recast pf s True = GStr s)"
  using assms by (auto simp add: recast_def ParseBool_def)

theorem recast_bool_spellings_witness:
  "ParseFloat_sample ''TRUE'' = None \<and> recast ParseFloat_sample ''TRUE'' True = GBool True
   \<and> ParseFloat_sample ''f'' = None \<and> recast ParseFloat_sample ''f'' True = GBool False
   \<and> ParseFloat_sample ''tRue'' = None \<and> recast ParseFloat_sample ''tRue'' True = GStr ''tRue''"
proof -
  have n: "ParseFloat_sample ''TRUE'' = None" "ParseFloat_sample ''f'' = None"
    "ParseFloat_sample ''tRue'' = None"
    by (simp_all add: ParseFloat_sample_def)
  from recast_bool_spellings [of ParseFloat_sample "''TRUE''", OF n(1)]
    recast_bool_spellings [of ParseFloat_sample "''f''", OF n(2)]
    recast_bool_spellings [of ParseFloat_sample "''tRue''", OF n(3)]
  show ?thesis using n by simp
qed

section \<open>Encoding the nil value\<close>

text \<open>
  C9. For every root tag \<open>rt\<close>, given alone or with an element tag, \<^verbatim>\<open>AnyXml\<close> encodes
  nil as \<^verbatim>\<open><rt/>\<close> when \<^verbatim>\<open>useGoXmlEmptyElemSyntax\<close> is unset and as \<^verbatim>\<open><rt></rt>\<close> when it
  is set, with no error; \<^verbatim>\<open>AnyXmlIndent\<close> returns the same text after the prefix.
\<close>

theorem AnyXml_nil:
  "AnyXml env GNil [rt] =
     (if useGoXmlEmptyElemSyntax env then ''<'' @ rt @ ''></'' @ rt @ ''>'' else ''<'' @ rt @ ''/>'', None)
   \<and> AnyXml env GNil [rt, et] =
     (if useGoXmlEmptyElemSyntax env then ''<'' @ rt @ ''></'' @ rt @ ''>'' else ''<'' @ rt @ ''/>'', None)
   \<and> AnyXmlIndent env GNil prefix ind [rt] =
     (if useGoXmlEmptyElemSyntax env then prefix @ ''<'' @ rt @ ''></'' @ rt @ ''>''
      else prefix @ ''<'' @ rt @ ''/>'', None)
   \<and> AnyXmlIndent env GNil prefix ind [rt, et] =
     (if useGoXmlEmptyElemSyntax env then prefix @ ''<'' @ rt @ ''></'' @ rt @ ''>''
      else prefix @ ''<'' @ rt @ ''/>'', None)"
  by (simp add: AnyXml_def AnyXmlIndent_def root_tag_def)

section \<open>Building the attribute-match map\<close>

lemma Split_no_sep: "sep \<notin> set w \<Longrightarrow> Split w sep = [w]"
  by (induction w) auto

lemma Split_at_sep: "sep \<notin> set n \<Longrightarrow> Split (n @ sep # rest) sep = n # Split rest sep"
  by (induction n) auto

lemma Split_pair:
  "sep \<notin> set n \<Longrightarrow> sep \<notin> set x \<Longrightarrow> Split (n @ sep # x) sep = [n, x]"
  by (simp add: Split_at_sep Split_no_sep)

lemma loop_valid:
  "\<forall>(n, x) \<in> set pairs. CHR '':'' \<notin> set n \<and> CHR '':'' \<notin> set x \<Longrightarrow>
   \<exists>m'. NewAttributeMap_loop (map (\<lambda>(n, x). n @ CHR '':'' # x) pairs) m = Inr m'
     \<and> map_of m' = map_of m ++ map_of (rev (map (\<lambda>(n, x). (CHR ''-'' # n, GStr x)) pairs))"
proof (induction pairs arbitrary: m)
  case Nil
  then show ?case by simp
next
  case (Cons p pairs)
  obtain n x where p: "p = (n, x)" by (cases p)
  from Cons.prems p have sp: "Split (n @ CHR '':'' # x) CHR '':'' = [n, x]"
    by (simp add: Split_pair)
  from Cons.prems have rest: "\<forall>(n, x) \<in> set pairs. CHR '':'' \<notin> set n \<and> CHR '':'' \<notin> set x"
    by simp
  from Cons.IH [OF rest, of "AList.update (CHR ''-'' # n) (GStr x) m"]
  obtain m' where m': "NewAttributeMap_loop (map (\<lambda>(n, x). n @ CHR '':'' # x) pairs)
        (AList.update (CHR ''-'' # n) (GStr x) m) = Inr m'"
    and mo: "map_of m' = map_of (AList.update (CHR ''-'' # n) (GStr x) m)
        ++ map_of (rev (map (\<lambda>(n, x). (CHR ''-'' # n, GStr x)) pairs))"
    by blast
  have "map_of m' = map_of m ++ map_of (rev (map (\<lambda>(n, x). (CHR ''-'' # n, GStr x)) (p # pairs)))"
    unfolding mo by (rule ext) (simp add: p update_conv' map_add_def split: option.split)
  with m' sp p show ?case by simp
qed

lemma length_two: "length xs = 2 \<longleftrightarrow> (\<exists>a b. xs = [a, b])"
  by (cases xs; cases "tl xs"; cases "tl (tl xs)") auto

lemma loop_step_invalid:
  "length (Split v CHR '':'') \<noteq> 2 \<Longrightarrow> NewAttributeMap_loop (v # kv) m = Inl (NotNameValue v)"
  by (auto simp add: length_two split: list.splits)

lemma loop_invalid:
  "v \<in> set kv \<Longrightarrow> length (Split v CHR '':'') \<noteq> 2 \<Longrightarrow>
   \<exists>v'. v' \<in> set kv \<and> length (Split v' CHR '':'') \<noteq> 2
      \<and> NewAttributeMap_loop kv m = Inl (NotNameValue v')"
proof (induction kv arbitrary: m)
  case Nil
  then show ?case by simp
next
  case (Cons w kv)
  show ?case
  proof (cases "length (Split w CHR '':'') = 2")
    case False
    then show ?thesis using loop_step_invalid [OF False] by auto
  next
    case True
    then obtain n x where nx: "Split w CHR '':'' = [n, x]" by (auto simp add: length_two)
    with Cons.prems True have "v \<in> set kv" by auto
    from Cons.IH [OF this Cons.prems(2), of "AList.update (CHR ''-'' # n) (GStr x) m"] nx
    show ?thesis by auto
  qed
qed

lemma map_of_rev_distinct:
  "distinct (map fst ps) \<Longrightarrow> (k, v) \<in> set ps \<Longrightarrow> map_of (rev ps) k = Some v"
  by (simp add: distinct_rev rev_map [symmetric])

text \<open>
  C8. \<^verbatim>\<open>NewAttributeMap\<close> with no argument returns no map and no error. With arguments
  that are all "name:value" pairs (one colon each) it returns a map that holds each value
  string under the key "-name", the pairs stored in the order of the arguments (so that
  of two pairs with one name the later stays); when the names differ, every pair is in
  the map. An argument that \<^verbatim>\<open>strings.Split\<close> does not cut into exactly two parts makes
  the call return an error, which names such an argument, and no map.
\<close>

theorem NewAttributeMap_pairs:
  "NewAttributeMap [] = Inr None
   \<and> (pairs \<noteq> [] \<and> (\<forall>(n, x) \<in> set pairs. CHR '':'' \<notin> set n \<and> CHR '':'' \<notin> set x) \<longrightarrow>
        (\<exists>m. NewAttributeMap (map (\<lambda>(n, x). n @ CHR '':'' # x) pairs) = Inr (Some m)
           \<and> map_of m = map_of (rev (map (\<lambda>(n, x). (CHR ''-'' # n, GStr x)) pairs))
           \<and> (distinct (map fst pairs) \<longrightarrow>
                (\<forall>(n, x) \<in> set pairs. map_of m (CHR ''-'' # n) = Some (GStr x)))))
   \<and> (v \<in> set kv \<and> length (Split v CHR '':'') \<noteq> 2 \<longrightarrow>
        (\<exists>v'. v' \<in> set kv \<and> length (Split v' CHR '':'') \<noteq> 2
           \<and> NewAttributeMap kv = Inl (NotNameValue v')))"
proof (intro conjI impI)
  show "NewAttributeMap [] = Inr None" by (simp add: NewAttributeMap_def)
next
  assume a: "pairs \<noteq> [] \<and> (\<forall>(n, x) \<in> set pairs. CHR '':'' \<notin> set n \<and> CHR '':'' \<notin> set x)"
  let ?es = "map (\<lambda>(n, x). (CHR ''-'' # n, GStr x)) pairs"
  from loop_valid [of pairs "[]"] a obtain m where
    m: "NewAttributeMap_loop (map (\<lambda>(n, x). n @ CHR '':'' # x) pairs) [] = Inr m"
    and mo: "map_of m = map_of (rev ?es)" by auto
  have d: "distinct (map fst pairs) \<longrightarrow>
      (\<forall>(n, x) \<in> set pairs. map_of m (CHR ''-'' # n) = Some (GStr x))"
  proof (intro impI)
    assume dp: "distinct (map fst pairs)"
    have "map fst ?es = map (\<lambda>n. CHR ''-'' # n) (map fst pairs)"
      by (simp add: case_prod_beta comp_def)
    with dp have de: "distinct (map fst ?es)"
      by (simp add: distinct_map inj_on_def del: map_map)
    show "\<forall>(n, x) \<in> set pairs. map_of m (CHR ''-'' # n) = Some (GStr x)"
    proof (clarify)
      fix n x assume "(n, x) \<in> set pairs"
      then have "(CHR ''-'' # n, GStr x) \<in> set ?es" by force
      from map_of_rev_distinct [OF de this] mo
      show "map_of m (CHR ''-'' # n) = Some (GStr x)" by simp
    qed
  qed
  from a m mo d
  show "\<exists>m. NewAttributeMap (map (\<lambda>(n, x). n @ CHR '':'' # x) pairs) = Inr (Some m)
           \<and> map_of m = map_of (rev ?es)
           \<and> (distinct (map fst pairs) \<longrightarrow>
                (\<forall>(n, x) \<in> set pairs. map_of m (CHR ''-'' # n) = Some (GStr x)))"
    by (auto simp add: NewAttributeMap_def)
next
  assume a: "v \<in> set kv \<and> length (Split v CHR '':'') \<noteq> 2"
  then have ne: "kv \<noteq> []" by auto
  from a loop_invalid [of v kv "[]"] obtain v' where
    "v' \<in> set kv" "length (Split v' CHR '':'') \<noteq> 2"
    "NewAttributeMap_loop kv [] = Inl (NotNameValue v')" by auto
  with ne show "\<exists>v'. v' \<in> set kv \<and> length (Split v' CHR '':'') \<noteq> 2
           \<and> NewAttributeMap kv = Inl (NotNameValue v')"
    by (auto simp add: NewAttributeMap_def)
qed

theorem NewAttributeMap_pairs_witness:
  "NewAttributeMap [''id:7'', ''x:y''] = Inr (Some [(''-id'', GStr ''7''), (''-x'', GStr ''y'')])
   \<and> map_of [(''-id'', GStr ''7''), (''-x'', GStr ''y'')] ''-id'' = Some (GStr ''7'')
   \<and> NewAttributeMap [''id:7'', ''x:y:z''] = Inl (NotNameValue ''x:y:z'')
   \<and> NewAttributeMap [''id''] = Inl (NotNameValue ''id'')"
  using NewAttributeMap_pairs [of "[(''id'', ''7''), (''x'', ''y'')]" "''x:y:z''" "[''id:7'', ''x:y:z'']"]
  by (simp add: NewAttributeMap_def)

section \<open>The search for a key at any depth\<close>

lemma members_acc:
  "(\<And>v ret. v \<in> set vs \<Longrightarrow> hasKey v key ret = ret @ f v) \<Longrightarrow>
   hasKey_members vs key ret = ret @ concat (map f vs)"
proof (induction vs arbitrary: ret)
  case Nil
  then show ?case by simp
next
  case (Cons v vs)
  have step: "hasKey v key ret = ret @ f v" using Cons.prems by simp
  have rest: "hasKey_members vs key (ret @ f v) = (ret @ f v) @ concat (map f vs)"
    using Cons.IH [of "ret @ f v"] Cons.prems by simp
  show ?case using step rest by simp
qed

lemma entries_acc:
  "(\<And>k v ret. (k, v) \<in> set vv \<Longrightarrow> hasKey v key ret = ret @ f v) \<Longrightarrow>
   hasKey_entries vv key ret = ret @ concat (map (\<lambda>(k, v). f v) vv)"
proof (induction vv arbitrary: ret)
  case Nil
  then show ?case by simp
next
  case (Cons e vv)
  obtain k v where e: "e = (k, v)" by (cases e)
  have step: "hasKey v key ret = ret @ f v" using Cons.prems [of k v] e by simp
  have p: "\<And>k v ret. (k, v) \<in> set vv \<Longrightarrow> hasKey v key ret = ret @ f v"
  proof -
    fix k v ret assume "(k, v) \<in> set vv"
    then have "(k, v) \<in> set (e # vv)" by simp
    then show "hasKey v key ret = ret @ f v" by (rule Cons.prems)
  qed
  have rest: "hasKey_entries vv key (ret @ f v) =
      (ret @ f v) @ concat (map (\<lambda>(k, v). f v) vv)"
    by (rule Cons.IH) (rule p)
  show ?case using step rest by (simp add: e)
qed

lemma hasKey_acc: "hasKey v key ret = ret @ hasKey v key []"
proof (induction v arbitrary: ret)
  case (GList vs)
  have m: "\<And>ret. hasKey_members vs key ret = ret @ concat (map (\<lambda>v. hasKey v key []) vs)"
    by (rule members_acc) (rule GList)
  have "hasKey (GList vs) key ret = ret @ concat (map (\<lambda>v. hasKey v key []) vs)"
    by (simp only: hasKey.simps m)
  moreover have "hasKey (GList vs) key [] = concat (map (\<lambda>v. hasKey v key []) vs)"
    by (simp only: hasKey.simps m append_Nil)
  ultimately show ?case by (simp only:)
next
  case (GMap vv)
  have h: "\<And>k v ret. (k, v) \<in> set vv \<Longrightarrow> hasKey v key ret = ret @ hasKey v key []"
  proof -
    fix k v ret assume "(k, v) \<in> set vv"
    then have "(k, v) \<in> set vv" "v \<in> Basic_BNFs.snds (k, v)" by simp_all
    then show "hasKey v key ret = ret @ hasKey v key []" by (rule GMap)
  qed
  have m: "\<And>ret. hasKey_entries vv key ret =
      ret @ concat (map (\<lambda>(k, v). hasKey v key []) vv)"
    by (rule entries_acc) (rule h)
  let ?own = "case map_of vv key of Some v \<Rightarrow> [v] | None \<Rightarrow> []"
  have a: "\<And>ret. hasKey (GMap vv) key ret =
      ret @ ?own @ concat (map (\<lambda>(k, v). hasKey v key []) vv)"
    by (simp add: m split: option.split)
  show ?case using a [of ret] a [of "[]"] by (simp only: append_Nil)
qed simp_all

lemma hasKey_GList:
  "hasKey (GList vs) key ret = ret @ concat (map (\<lambda>v. hasKey v key []) vs)"
proof -
  have "hasKey_members vs key ret = ret @ concat (map (\<lambda>v. hasKey v key []) vs)"
    by (rule members_acc) (rule hasKey_acc)
  then show ?thesis by simp
qed

lemma hasKey_GMap:
  "hasKey (GMap vv) key ret =
     ret @ (case map_of vv key of Some v \<Rightarrow> [v] | None \<Rightarrow> [])
         @ concat (map (\<lambda>(k, v). hasKey v key []) vv)"
proof -
  have "\<And>ret. hasKey_entries vv key ret =
      ret @ concat (map (\<lambda>(k, v). hasKey v key []) vv)"
    by (rule entries_acc) (rule hasKey_acc)
  then show ?thesis by (simp split: option.split)
qed

lemma hasKey_sound: "x \<in> set (hasKey v key []) \<Longrightarrow> stored_under key v x"
proof (induction v arbitrary: x)
  case (GList vs)
  from GList.prems have "x \<in> set (concat (map (\<lambda>v. hasKey v key []) vs))"
    by (simp only: hasKey_GList append_Nil)
  then obtain v where "v \<in> set vs" "x \<in> set (hasKey v key [])" by auto
  then show ?case using GList.IH by (blast intro: stored_under.in_member)
next
  case (GMap vv)
  from GMap.prems have "x \<in> set ((case map_of vv key of Some v \<Rightarrow> [v] | None \<Rightarrow> [])
      @ concat (map (\<lambda>(k, v). hasKey v key []) vv))"
    by (simp only: hasKey_GMap append_Nil)
  then consider "map_of vv key = Some x"
    | k v where "(k, v) \<in> set vv" "x \<in> set (hasKey v key [])"
    by (auto split: option.splits)
  then show ?case
  proof cases
    case 1
    then show ?thesis by (rule stored_under.here)
  next
    case 2
    from 2 have "v \<in> Basic_BNFs.snds (k, v)" by simp
    from GMap.IH [OF 2(1) this 2(2)] 2(1) show ?thesis by (rule stored_under.in_entry [rotated])
  qed
qed simp_all

lemma hasKey_complete: "stored_under key v x \<Longrightarrow> x \<in> set (hasKey v key [])"
proof (induction rule: stored_under.induct)
  case (here vv x)
  have "x \<in> set ((case map_of vv key of Some v \<Rightarrow> [v] | None \<Rightarrow> [])
      @ concat (map (\<lambda>(k, v). hasKey v key []) vv))"
    using here by simp
  then show ?case by (simp only: hasKey_GMap append_Nil)
next
  case (in_entry k v vv x)
  have "x \<in> set ((case map_of vv key of Some v \<Rightarrow> [v] | None \<Rightarrow> [])
      @ concat (map (\<lambda>(k, v). hasKey v key []) vv))"
    using in_entry by force
  then show ?case by (simp only: hasKey_GMap append_Nil)
next
  case (in_member v vs x)
  have "x \<in> set (concat (map (\<lambda>v. hasKey v key []) vs))"
    using in_member by force
  then show ?case by (simp only: hasKey_GList append_Nil)
qed

text \<open>
  C4. \<^verbatim>\<open>ValuesForKey\<close> goes through the tree depth first: at a mapping it first appends
  the value under the key, when there is one, and then goes into every value of the
  mapping, whether the key was there or not; at a list it goes into every member. What
  it collects are exactly the values stored under the key at any depth, so the result is
  empty exactly when the key occurs nowhere. The function has no error to return.
\<close>

theorem ValuesForKey_collects:
  "ValuesForKey m key =
     (case map_of m key of Some v \<Rightarrow> [v] | None \<Rightarrow> [])
       @ concat (map (\<lambda>(k, v). hasKey v key []) m)
   \<and> hasKey (GMap vv) key ret =
       ret @ (case map_of vv key of Some v \<Rightarrow> [v] | None \<Rightarrow> [])
           @ concat (map (\<lambda>(k, v). hasKey v key []) vv)
   \<and> hasKey (GList vs) key ret = ret @ concat (map (\<lambda>v. hasKey v key []) vs)
   \<and> set (ValuesForKey m key) = {x. stored_under key (GMap m) x}
   \<and> (ValuesForKey m key = [] \<longleftrightarrow> (\<nexists>x. stored_under key (GMap m) x))"
proof -
  have v: "ValuesForKey m key = hasKey (GMap m) key []"
    by (simp add: ValuesForKey_def Let_def)
  have s: "set (hasKey (GMap m) key []) = {x. stored_under key (GMap m) x}"
    using hasKey_sound hasKey_complete by blast
  have e: "hasKey (GMap m) key [] = [] \<longleftrightarrow> (\<nexists>x. stored_under key (GMap m) x)"
    using s by (metis (mono_tags, lifting) Collect_empty_eq set_empty)
  show ?thesis using v s e hasKey_GMap [of m key "[]"] hasKey_GMap [of vv key ret]
      hasKey_GList [of vs key ret] by simp
qed

theorem ValuesForKey_collects_witness:
  "ValuesForKey [(''books'', GMap [(''book'', GList [GStr ''A'', GStr ''B''])])] ''book''
     = [GList [GStr ''A'', GStr ''B'']]
   \<and> stored_under ''book'' (GMap [(''books'', GMap [(''book'', GList [GStr ''A'', GStr ''B''])])])
       (GList [GStr ''A'', GStr ''B''])
   \<and> ValuesForKey [(''books'', GMap [(''book'', GList [GStr ''A'', GStr ''B''])])] ''title'' = []
   \<and> (\<nexists>x. stored_under ''title'' (GMap [(''books'', GMap [(''book'', GList [GStr ''A'', GStr ''B''])])]) x)"
proof -
  let ?m = "[(''books'', GMap [(''book'', GList [GStr ''A'', GStr ''B''])])]"
  have b: "ValuesForKey ?m ''book'' = [GList [GStr ''A'', GStr ''B'']]"
    by (simp add: ValuesForKey_def)
  have t: "ValuesForKey ?m ''title'' = []"
    by (simp add: ValuesForKey_def)
  note s = ValuesForKey_collects [THEN conjunct2, THEN conjunct2, THEN conjunct2, THEN conjunct1]
  note e = ValuesForKey_collects [THEN conjunct2, THEN conjunct2, THEN conjunct2, THEN conjunct2]
  have "GList [GStr ''A'', GStr ''B''] \<in> set (ValuesForKey ?m ''book'')"
    by (simp only: b) simp
  then have "GList [GStr ''A'', GStr ''B''] \<in> {x. stored_under ''book'' (GMap ?m) x}"
    by (simp only: s)
  then have sb: "stored_under ''book'' (GMap ?m) (GList [GStr ''A'', GStr ''B''])"
    by (rule CollectD)
  have st: "\<nexists>x. stored_under ''title'' (GMap ?m) x"
    by (rule e [THEN iffD1]) (rule t)
  show ?thesis using b t sb st by (intro conjI)
qed

section \<open>Matching a value against the filter\<close>








section \<open>Walking the path\<close>

lemma Split_not_Nil: "Split w sep \<noteq> []"
  by (induction w) (auto split: list.splits)

lemma MapValue_keys_walk:
  "(isMap \<longrightarrow> v = GMap m) \<Longrightarrow> (\<not> isMap \<longrightarrow> (\<forall>m'. v \<noteq> GMap m')) \<Longrightarrow>
   MapValue_keys m v isMap okey keys = walk v okey keys"
proof (induction keys arbitrary: m v isMap okey)
  case Nil
  then show ?case by simp
next
  case (Cons key keys)
  show ?case
  proof (cases isMap)
    case False
    with Cons.prems show ?thesis by (cases v) simp_all
  next
    case True
    with Cons.prems have v: "v = GMap m" by simp
    show ?thesis
    proof (cases "map_of m key")
      case None
      with True v show ?thesis by simp
    next
      case (Some v')
      show ?thesis
      proof (cases "\<exists>m'. v' = GMap m'")
        case True
        then obtain m' where m': "v' = GMap m'" by blast
        have "MapValue_keys m' v' True key keys = walk v' key keys"
          by (rule Cons.IH) (simp_all add: m')
        with \<open>isMap\<close> v Some m' show ?thesis by simp
      next
        case False
        have "MapValue_keys m v' False key keys = walk v' key keys"
          by (rule Cons.IH) (use False in simp_all)
        with \<open>isMap\<close> v Some False show ?thesis by (cases v') simp_all
      qed
    qed
  qed
qed

lemma walk_append:
  "walk v okey (pre @ rest) =
     (case follow v pre of
        Some v' \<Rightarrow> walk v' (last (okey # pre)) rest
      | None \<Rightarrow> walk v okey pre)"
proof (induction pre arbitrary: v okey)
  case Nil
  then show ?case by simp
next
  case (Cons k pre)
  show ?case
  proof (cases v)
    case (GMap m)
    then show ?thesis using Cons.IH by (simp split: option.split)
  qed simp_all
qed

lemma walk_Inr: "walk v okey keys = Inr res \<longleftrightarrow> follow v keys = Some res"
proof (induction keys arbitrary: v okey)
  case Nil
  then show ?case by simp
next
  case (Cons k keys)
  show ?case
  proof (cases v)
    case (GMap m)
    then show ?thesis using Cons.IH by (simp split: option.split)
  qed simp_all
qed

text \<open>
  Past the guard, \<open>MapValue\<close> is the walk of the specification from the root as the recast
  loop leaves it, followed by the match against the filter when there is one.
\<close>

lemma MapValue_walk:
  assumes rc: "MapValue_recast pf attr r = (None, attr1)"
    and first: "hd (Split path CHR ''.'') \<noteq> [] \<or> (\<exists>a. attr1 = Some a \<and> a \<noteq> [])"
  shows "returned (MapValue pf root path attr r) =
           (case walk (GMap (root_entries (entries_of attr1) root)) [] (Split path CHR ''.'') of
              Inl e \<Rightarrow> Inl e
            | Inr v \<Rightarrow> (case attr1 of None \<Rightarrow> Inr v | Some a \<Rightarrow> hasAttributes v a))"
proof -
  define m where "m = root_entries (entries_of attr1) root"
  obtain key0 rest where sp: "Split path CHR ''.'' = key0 # rest"
    using Split_not_Nil [of path "CHR ''.''"] by (cases "Split path CHR ''.''") auto
  from first sp have g: "\<not> (key0 = [] \<and> (case attr1 of None \<Rightarrow> True | Some a \<Rightarrow> length a = 0))"
    by (auto split: option.splits)
  have w: "MapValue_keys m (GMap m) True [] (key0 # rest) = walk (GMap m) [] (key0 # rest)"
    by (rule MapValue_keys_walk) simp_all
  have "returned (MapValue pf root path attr r) =
           (case walk (GMap m) [] (key0 # rest) of
              Inl e \<Rightarrow> Inl e
            | Inr v \<Rightarrow> (case attr1 of None \<Rightarrow> Inr v | Some a \<Rightarrow> hasAttributes v a))"
    unfolding MapValue_def rc sp Let_def m_def [symmetric] prod.case option.case list.case w
    using g by (cases "walk (GMap m) [] (key0 # rest)"; cases attr1) (auto simp del: walk.simps)
  then show ?thesis unfolding sp m_def .
qed

text \<open>
  So past the guard a mapping on the way that lacks the next key gives "no key in map"
  with that key, a value on the way that is no mapping while keys remain gives "no keys
  beyond" with the last key consumed, and a call that returns a value has gone through
  mappings only, along the whole path.
\<close>

lemma MapValue_path_walk:
  assumes rc: "MapValue_recast pf attr r = (None, attr1)"
    and first: "hd (Split path CHR ''.'') \<noteq> [] \<or> (\<exists>a. attr1 = Some a \<and> a \<noteq> [])"
    and m: "m = root_entries (entries_of attr1) root"
  shows "(Split path CHR ''.'' = pre @ k # post \<and> follow (GMap m) pre = Some (GMap m')
            \<and> map_of m' k = None \<longrightarrow>
          returned (MapValue pf root path attr r) = Inl (NoKeyInMap k))
       \<and> (Split path CHR ''.'' = pre @ k # post \<and> post \<noteq> []
            \<and> follow (GMap m) (pre @ [k]) = Some v \<and> (\<forall>m'. v \<noteq> GMap m') \<longrightarrow>
          returned (MapValue pf root path attr r) = Inl (NoKeysBeyond k))
       \<and> (\<forall>res. returned (MapValue pf root path attr r) = Inr res \<longrightarrow>
            (\<exists>v. follow (GMap m) (Split path CHR ''.'') = Some v))"
proof -
  note w = MapValue_walk [OF rc first, of root, folded m]
  have p2: "Split path CHR ''.'' = pre @ k # post \<and> follow (GMap m) pre = Some (GMap m')
            \<and> map_of m' k = None \<longrightarrow>
          returned (MapValue pf root path attr r) = Inl (NoKeyInMap k)"
  proof
    assume a: "Split path CHR ''.'' = pre @ k # post \<and> follow (GMap m) pre = Some (GMap m')
            \<and> map_of m' k = None"
    then have "walk (GMap m) [] (Split path CHR ''.'') = Inl (NoKeyInMap k)"
      by (simp add: walk_append)
    then show "returned (MapValue pf root path attr r) = Inl (NoKeyInMap k)"
      unfolding w by simp
  qed
  have p3: "Split path CHR ''.'' = pre @ k # post \<and> post \<noteq> []
            \<and> follow (GMap m) (pre @ [k]) = Some v \<and> (\<forall>m'. v \<noteq> GMap m') \<longrightarrow>
          returned (MapValue pf root path attr r) = Inl (NoKeysBeyond k)"
  proof
    assume a: "Split path CHR ''.'' = pre @ k # post \<and> post \<noteq> []
            \<and> follow (GMap m) (pre @ [k]) = Some v \<and> (\<forall>m'. v \<noteq> GMap m')"
    then obtain q qs where post: "post = q # qs" by (cases post) auto
    from a have sp: "Split path CHR ''.'' = (pre @ [k]) @ post" by simp
    have "walk (GMap m) [] ((pre @ [k]) @ post) = walk v k post"
      using a by (simp only: walk_append [of _ _ "pre @ [k]"]) simp
    also have "\<dots> = Inl (NoKeysBeyond k)" using a post by (cases v) simp_all
    finally have "walk (GMap m) [] (Split path CHR ''.'') = Inl (NoKeysBeyond k)"
      unfolding sp .
    then show "returned (MapValue pf root path attr r) = Inl (NoKeysBeyond k)"
      unfolding w by simp
  qed
  have p4: "\<forall>res. returned (MapValue pf root path attr r) = Inr res \<longrightarrow>
            (\<exists>v. follow (GMap m) (Split path CHR ''.'') = Some v)"
  proof (intro allI impI)
    fix res assume "returned (MapValue pf root path attr r) = Inr res"
    then obtain v where "walk (GMap m) [] (Split path CHR ''.'') = Inr v"
      unfolding w by (cases "walk (GMap m) [] (Split path CHR ''.'')") auto
    then show "\<exists>v. follow (GMap m) (Split path CHR ''.'') = Some v"
      by (auto simp add: walk_Inr)
  qed
  show ?thesis using p2 p3 p4 by (intro conjI)
qed

text \<open>
  C3, at the path ".a". The path is not empty, and its first key is the empty string,
  which the root \<^verbatim>\<open>{"a": "x"}\<close> does not have. The claim has the call fail with "no key
  in map" and that key, as the call with the same path and a filter does. With no filter
  the guard written for the empty path returns the root, with no error and without
  consuming a key.
\<close>

theorem MapValue_leading_dot:
  "Split ''.a'' CHR ''.'' = [[], ''a'']
   \<and> map_of (root_entries [] (Root [(''a'', SStr ''x'')])) [] = None
   \<and> returned (MapValue ParseFloat_sample (Root [(''a'', SStr ''x'')]) ''.a'' None [])
       = Inr (GMap [(''a'', GStr ''x'')])
   \<and> returned (MapValue ParseFloat_sample (Root [(''a'', SStr ''x'')]) ''.a''
         (Some [(''-id'', GStr ''7'')]) [])
       = Inl (NoKeyInMap [])
   \<and> returned (MapValue ParseFloat_sample (Root [(''a'', SStr ''x'')]) ''b.a'' None [])
       = Inl (NoKeyInMap ''b'')"
  by (simp add: MapValue_def MapValue_recast_def entries_of_def Let_def)

section \<open>The empty path\<close>

text \<open>
  C7, amended. With the empty path and no filter (nil or without entries) \<open>MapValue\<close>
  returns the root and leaves the filter and the root as they were. With the empty path
  and a filter that is not empty the guard does not apply: the one key of the path, the
  empty string, is looked up in the root, so the call fails with "no key in map" unless
  the root has an entry under the empty key, to whose value the filter is then applied.
\<close>

theorem MapValue_empty_path:
  "(attr = None \<or> attr = Some [] \<longrightarrow>
      MapValue pf root [] attr r =
        \<lparr>returned = Inr (GMap (root_entries [] root)), filter_after = attr,
         root_after = root_entries [] root\<rparr>)
   \<and> (MapValue_recast pf attr r = (None, Some a') \<and> a' \<noteq> [] \<longrightarrow>
        returned (MapValue pf root [] attr r) =
          (case map_of (root_entries a' root) [] of
             None \<Rightarrow> Inl (NoKeyInMap [])
           | Some v \<Rightarrow> hasAttributes v a'))"
proof (intro conjI impI)
  assume "attr = None \<or> attr = Some []"
  then have "MapValue_recast pf attr r = (None, attr)"
    by (auto simp add: MapValue_recast_def)
  with \<open>attr = None \<or> attr = Some []\<close> show "MapValue pf root [] attr r =
        \<lparr>returned = Inr (GMap (root_entries [] root)), filter_after = attr,
         root_after = root_entries [] root\<rparr>"
    by (auto simp add: MapValue_def entries_of_def Let_def)
next
  assume a: "MapValue_recast pf attr r = (None, Some a') \<and> a' \<noteq> []"
  then have rc: "MapValue_recast pf attr r = (None, Some a')" by simp
  have f: "hd (Split [] CHR ''.'') \<noteq> [] \<or> (\<exists>a. Some a' = Some a \<and> a \<noteq> [])"
    using a by simp
  show "returned (MapValue pf root [] attr r) =
          (case map_of (root_entries a' root) [] of
             None \<Rightarrow> Inl (NoKeyInMap [])
           | Some v \<Rightarrow> hasAttributes v a')"
    unfolding MapValue_walk [OF rc f] by (simp add: entries_of_def split: option.split)
qed

theorem MapValue_empty_path_witness:
  "MapValue ParseFloat_sample (Root [(''a'', SStr ''x'')]) [] None []
     = \<lparr>returned = Inr (GMap [(''a'', GStr ''x'')]), filter_after = None,
        root_after = [(''a'', GStr ''x'')]\<rparr>
   \<and> MapValue ParseFloat_sample (Root [(''a'', SStr ''x'')]) [] (Some []) []
       = \<lparr>returned = Inr (GMap [(''a'', GStr ''x'')]), filter_after = Some [],
          root_after = [(''a'', GStr ''x'')]\<rparr>
   \<and> MapValue_recast ParseFloat_sample (Some [(''-id'', GStr ''7'')]) [] = (None, Some [(''-id'', GStr ''7'')])
   \<and> returned (MapValue ParseFloat_sample (Root [(''-id'', SStr ''7''), (''#text'', SStr ''T'')]) []
            (Some [(''-id'', GStr ''7'')]) []) = Inl (NoKeyInMap [])"
proof -
  have rc: "MapValue_recast ParseFloat_sample (Some [(''-id'', GStr ''7'')]) []
      = (None, Some [(''-id'', GStr ''7'')])"
    by (simp add: MapValue_recast_def)
  from MapValue_empty_path [where attr = None and pf = ParseFloat_sample
        and root = "Root [(''a'', SStr ''x'')]" and r = "[]"]
    MapValue_empty_path [where attr = "Some []" and pf = ParseFloat_sample
        and root = "Root [(''a'', SStr ''x'')]" and r = "[]"]
    MapValue_empty_path [where attr = "Some [(''-id'', GStr ''7'')]" and pf = ParseFloat_sample
        and root = "Root [(''-id'', SStr ''7''), (''#text'', SStr ''T'')]" and r = "[]"
        and a' = "[(''-id'', GStr ''7'')]"]
  show ?thesis using rc by simp
qed

text \<open>
  C7, as the code has it. The filter matches the root below, where attribute matching
  gives the value under "#text"; \<open>MapValue\<close> with the empty path and this filter returns
  the error "no key in map" instead.
\<close>

theorem MapValue_empty_path_counterexample:
  "hasAttributes (GMap (root_entries [(''-id'', GStr ''7'')]
        (Root [(''-id'', SStr ''7''), (''#text'', SStr ''T'')]))) [(''-id'', GStr ''7'')]
     = Inr (GStr ''T'')
   \<and> returned (MapValue ParseFloat_sample (Root [(''-id'', SStr ''7''), (''#text'', SStr ''T'')]) []
            (Some [(''-id'', GStr ''7'')]) []) = Inl (NoKeyInMap [])"
  by (simp add: MapValue_def MapValue_recast_def entries_of_def Let_def)

section \<open>The filter and the root after the call\<close>

lemma MapValue_filter_after:
  "filter_after (MapValue pf root path attr r) = snd (MapValue_recast pf attr r)"
  by (simp add: MapValue_def Let_def split: prod.split option.split list.split sum.split)

lemma MapValue_root_after:
  "root_after (MapValue pf root path attr r) =
     root_entries (entries_of (snd (MapValue_recast pf attr r))) root"
  by (simp add: MapValue_def Let_def split: prod.split option.split list.split sum.split)

lemma update_middle:
  "k \<notin> fst ` set pre \<Longrightarrow> AList.update k v (pre @ (k, w) # rest) = pre @ (k, v) # rest"
  by (induction pre) auto

lemma recast_attr_strings:
  "distinct (map fst (pre @ kvs)) \<Longrightarrow> list_all (\<lambda>(k, v). is_string v) kvs \<Longrightarrow>
   recast_attr pf kvs (pre @ kvs) = (None, pre @ map (recast_entry pf) kvs)"
proof (induction kvs arbitrary: pre)
  case Nil
  then show ?case by simp
next
  case (Cons e kvs)
  obtain k v where e: "e = (k, v)" by (cases e)
  from Cons.prems(2) e obtain s where v: "v = GStr s"
    by (cases v) (simp_all add: is_string_def)
  from Cons.prems(1) e have k: "k \<notin> fst ` set pre" by auto
  have d: "distinct (map fst ((pre @ [(k, recast pf s True)]) @ kvs))"
    using Cons.prems(1) e by auto
  have l: "list_all (\<lambda>(k, v). is_string v) kvs" using Cons.prems(2) by simp
  have "recast_attr pf (e # kvs) (pre @ e # kvs)
      = recast_attr pf kvs ((pre @ [(k, recast pf s True)]) @ kvs)"
    using e v update_middle [OF k, of "recast pf s True" "GStr s" kvs] by simp
  also have "\<dots> = (None, (pre @ [(k, recast pf s True)]) @ map (recast_entry pf) kvs)"
    by (rule Cons.IH [OF d l])
  also have "\<dots> = (None, pre @ map (recast_entry pf) (e # kvs))"
    using e v by (simp add: recast_entry_def)
  finally show ?case .
qed

text \<open>A shared value that does not hold the filter map reads the same whatever the map holds.\<close>

lemma reads_without_filter:
  "\<not> holds_filter v \<Longrightarrow> reads a v = reads b v"
  "\<not> holds_filter_entries m \<Longrightarrow> reads_entries a m = reads_entries b m"
  "\<not> holds_filter_members vs \<Longrightarrow> reads_members a vs = reads_members b vs"
  by (induction v and m and vs rule: holds_filter_holds_filter_entries_holds_filter_members.induct)
     simp_all

lemma root_without_filter:
  "\<not> root_holds_filter root \<Longrightarrow> root_entries a root = root_entries b root"
  by (cases root) (simp_all add: reads_without_filter(2) [of _ a b])

text \<open>
  A root that holds the filter map under "x", in a call with the flag true: the recast
  loop rewrites the map before the walk reaches it, so the match of the map against
  itself succeeds and returns the recast of its text.
\<close>

lemma MapValue_shared_example:
  "MapValue ParseFloat_sample (Root [(''x'', FilterMap)]) ''x''
       (Some [(''-id'', GStr ''7''), (''#text'', GStr ''T'')]) [True]
     = \<lparr>returned = Inr (GBool True),
        filter_after = Some [(''-id'', GFloat 0x401C000000000000), (''#text'', GBool True)],
        root_after = [(''x'', GMap [(''-id'', GFloat 0x401C000000000000), (''#text'', GBool True)])]\<rparr>"
  by (simp add: MapValue_def MapValue_recast_def recast_def ParseFloat_sample_def ParseBool_def
      entries_of_def Let_def float64_eq_def isNaN_def)

text \<open>
  C10, amended. Without the flag, or with a flag that is not the one value true, the
  caller's filter and root hold after the call what they held before, and so they do
  when the filter is nil. With the flag given as the one value true, the call stores in
  the filter, under each key, the recast of the string that was there: the keys and their
  order stay, and a value that reads as a float or as a boolean is replaced by it. The
  root then holds what it held before when the filter map is neither the root nor a map
  inside it; a root that holds the filter map shows the recast values there.
\<close>

theorem MapValue_frame:
  "(\<not> (length r = 1 \<and> r ! 0) \<longrightarrow>
      filter_after (MapValue pf root path attr r) = attr
      \<and> root_after (MapValue pf root path attr r) = root_entries (entries_of attr) root)
   \<and> filter_after (MapValue pf root path None r) = None
   \<and> root_after (MapValue pf root path None r) = root_entries (entries_of None) root
   \<and> (distinct (map fst a) \<and> list_all (\<lambda>(k, v). is_string v) a \<longrightarrow>
        filter_after (MapValue pf root path (Some a) [True]) = Some (map (recast_entry pf) a)
        \<and> root_after (MapValue pf root path (Some a) [True])
            = root_entries (map (recast_entry pf) a) root)
   \<and> (\<not> root_holds_filter root \<longrightarrow>
        root_after (MapValue pf root path attr r) = root_entries (entries_of attr) root)"
proof (intro conjI impI)
  assume n: "\<not> (length r = 1 \<and> r ! 0)"
  then have rc: "MapValue_recast pf attr r = (None, attr)"
    by (auto simp add: MapValue_recast_def)
  show "filter_after (MapValue pf root path attr r) = attr"
    unfolding MapValue_filter_after rc by simp
  show "root_after (MapValue pf root path attr r) = root_entries (entries_of attr) root"
    unfolding MapValue_root_after rc by simp
next
  have rc: "MapValue_recast pf None r = (None, None)"
    by (simp add: MapValue_recast_def)
  show "filter_after (MapValue pf root path None r) = None"
    unfolding MapValue_filter_after rc by simp
  show "root_after (MapValue pf root path None r) = root_entries (entries_of None) root"
    unfolding MapValue_root_after rc by simp
next
  assume a: "distinct (map fst a) \<and> list_all (\<lambda>(k, v). is_string v) a"
  then have "recast_attr pf a ([] @ a) = (None, [] @ map (recast_entry pf) a)"
    by (intro recast_attr_strings) simp_all
  then have rc: "MapValue_recast pf (Some a) [True] = (None, Some (map (recast_entry pf) a))"
    by (simp add: MapValue_recast_def)
  show "filter_after (MapValue pf root path (Some a) [True]) = Some (map (recast_entry pf) a)"
    unfolding MapValue_filter_after rc by simp
  show "root_after (MapValue pf root path (Some a) [True])
            = root_entries (map (recast_entry pf) a) root"
    unfolding MapValue_root_after rc by (simp add: entries_of_def)
next
  assume "\<not> root_holds_filter root"
  then show "root_after (MapValue pf root path attr r) = root_entries (entries_of attr) root"
    unfolding MapValue_root_after by (rule root_without_filter)
qed

theorem MapValue_frame_witness:
  "filter_after (MapValue ParseFloat_sample (Root [(''doc'', SStr ''x'')]) ''doc''
       (Some [(''-id'', GStr ''7'')]) [False]) = Some [(''-id'', GStr ''7'')]
   \<and> root_after (MapValue ParseFloat_sample (Root [(''doc'', FilterMap)]) ''doc''
       (Some [(''-id'', GStr ''7'')]) [False]) = [(''doc'', GMap [(''-id'', GStr ''7'')])]
   \<and> distinct (map fst [(''-id'', GStr ''7''), (''-ok'', GStr ''true''), (''-n'', GStr ''abc'')])
   \<and> list_all (\<lambda>(k, v). is_string v) [(''-id'', GStr ''7''), (''-ok'', GStr ''true''), (''-n'', GStr ''abc'')]
   \<and> filter_after (MapValue ParseFloat_sample (Root [(''doc'', SStr ''x'')]) ''doc''
        (Some [(''-id'', GStr ''7''), (''-ok'', GStr ''true''), (''-n'', GStr ''abc'')]) [True])
     = Some [(''-id'', GFloat 0x401C000000000000), (''-ok'', GBool True), (''-n'', GStr ''abc'')]
   \<and> \<not> root_holds_filter (Root [(''doc'', SStr ''x'')])
   \<and> root_after (MapValue ParseFloat_sample (Root [(''doc'', SStr ''x'')]) ''doc''
        (Some [(''-id'', GStr ''7''), (''-ok'', GStr ''true''), (''-n'', GStr ''abc'')]) [True])
     = [(''doc'', GStr ''x'')]
   \<and> root_after (MapValue ParseFloat_sample (Root [(''doc'', FilterMap)]) ''doc''
        (Some [(''-id'', GStr ''7''), (''-ok'', GStr ''true''), (''-n'', GStr ''abc'')]) [True])
     = [(''doc'', GMap [(''-id'', GFloat 0x401C000000000000), (''-ok'', GBool True),
                        (''-n'', GStr ''abc'')])]"
proof -
  let ?a = "[(''-id'', GStr ''7''), (''-ok'', GStr ''true''), (''-n'', GStr ''abc'')]"
  have d: "distinct (map fst ?a)"
    by simp
  have l: "list_all (\<lambda>(k, v). is_string v) ?a"
    by (simp add: is_string_def)
  have h: "\<not> root_holds_filter (Root [(''doc'', SStr ''x'')])"
    by simp
  have n: "\<not> (length [False] = 1 \<and> [False] ! 0)"
    by simp
  note f1 = MapValue_frame [where r = "[False]" and pf = ParseFloat_sample
        and root = "Root [(''doc'', SStr ''x'')]" and path = "''doc''"
        and attr = "Some [(''-id'', GStr ''7'')]" and a = ?a]
  note f2 = MapValue_frame [where r = "[False]" and pf = ParseFloat_sample
        and root = "Root [(''doc'', FilterMap)]" and path = "''doc''"
        and attr = "Some [(''-id'', GStr ''7'')]" and a = ?a]
  note f3 = MapValue_frame [where r = "[True]" and pf = ParseFloat_sample
        and root = "Root [(''doc'', SStr ''x'')]" and path = "''doc''"
        and attr = "Some ?a" and a = ?a]
  have c1: "filter_after (MapValue ParseFloat_sample (Root [(''doc'', SStr ''x'')]) ''doc''
       (Some [(''-id'', GStr ''7'')]) [False]) = Some [(''-id'', GStr ''7'')]"
    using f1 n by blast
  have c2: "root_after (MapValue ParseFloat_sample (Root [(''doc'', FilterMap)]) ''doc''
       (Some [(''-id'', GStr ''7'')]) [False]) = [(''doc'', GMap [(''-id'', GStr ''7'')])]"
    using f2 n by (simp add: entries_of_def)
  have c3: "filter_after (MapValue ParseFloat_sample (Root [(''doc'', SStr ''x'')]) ''doc''
        (Some ?a) [True])
     = Some [(''-id'', GFloat 0x401C000000000000), (''-ok'', GBool True), (''-n'', GStr ''abc'')]"
    using f3 d l by (simp add: recast_entry_def recast_def ParseFloat_sample_def ParseBool_def)
  have c4: "root_after (MapValue ParseFloat_sample (Root [(''doc'', SStr ''x'')]) ''doc''
        (Some ?a) [True]) = [(''doc'', GStr ''x'')]"
    using f3 h by (simp add: entries_of_def)
  have c5: "root_after (MapValue ParseFloat_sample (Root [(''doc'', FilterMap)]) ''doc''
        (Some ?a) [True])
     = [(''doc'', GMap [(''-id'', GFloat 0x401C000000000000), (''-ok'', GBool True),
                        (''-n'', GStr ''abc'')])]"
    using MapValue_frame [where r = "[True]" and pf = ParseFloat_sample
        and root = "Root [(''doc'', FilterMap)]" and path = "''doc''"
        and attr = "Some ?a" and a = ?a] d l
    by (simp add: recast_entry_def recast_def ParseFloat_sample_def ParseBool_def)
  show ?thesis using c1 c2 d l c3 h c4 c5 by (intro conjI)
qed

text \<open>
  C10, as the code has it. A call with the flag true and the filter \<^verbatim>\<open>{"-ok": "true"}\<close>
  returns the text of the element and leaves the boolean true under "-ok" in the
  caller's filter, where the string "true" was. A call with the flag true in which the
  map \<^verbatim>\<open>{"a": "7"}\<close> is both the root and the filter leaves the float 7 under "a" in
  that map, so the root has changed as well.
\<close>

theorem MapValue_recast_counterexample:
  "MapValue ParseFloat_sample (Root [(''doc'', SMap [(''-ok'', SBool True), (''#text'', SStr ''x'')])])
       ''doc'' (Some [(''-ok'', GStr ''true'')]) [True]
     = \<lparr>returned = Inr (GStr ''x''), filter_after = Some [(''-ok'', GBool True)],
        root_after = [(''doc'', GMap [(''-ok'', GBool True), (''#text'', GStr ''x'')])]\<rparr>
   \<and> root_entries [(''a'', GStr ''7'')] RootIsFilter = [(''a'', GStr ''7'')]
   \<and> MapValue ParseFloat_sample RootIsFilter ''a'' (Some [(''a'', GStr ''7'')]) [True]
     = \<lparr>returned = Inl NoMatch, filter_after = Some [(''a'', GFloat 0x401C000000000000)],
        root_after = [(''a'', GFloat 0x401C000000000000)]\<rparr>"
  by (simp add: MapValue_def MapValue_recast_def recast_def ParseFloat_sample_def ParseBool_def
      entries_of_def Let_def)

section \<open>Encoding a list\<close>

lemma length_one: "length m = 1 \<Longrightarrow> \<exists>k v. m = [(k, v)]"
  by (cases m) auto

lemma member_tag_several: "length m \<noteq> 1 \<Longrightarrow> member_tag et (GMap m) = (et, GMap m)"
  by (cases m rule: list.exhaust [case_product prod.exhaust])
     (auto simp add: member_tag_def split: list.split prod.split)

lemma member_step:
  "(case vv of
      GMap m \<Rightarrow>
        if length m = 1 then range_tags env False m (s, None, p)
        else (case marshalMapToXmlIndent env False et vv p of
                (out, err, p') \<Rightarrow> (s @ out, err, p'))
    | _ \<Rightarrow> (case marshalMapToXmlIndent env False et vv p of
              (out, err, p') \<Rightarrow> (s @ out, err, p')))
   = (case marshalMapToXmlIndent env False (fst (member_tag et vv)) (snd (member_tag et vv)) p of
        (out, err, p') \<Rightarrow> (s @ out, err, p'))"
proof (cases vv)
  case (GMap m)
  show ?thesis
  proof (cases "length m = 1")
    case True
    from length_one [OF this] obtain k v where "m = [(k, v)]" by blast
    with GMap show ?thesis by (simp add: member_tag_def split: prod.split)
  next
    case False
    with GMap member_tag_several [OF False, of et] show ?thesis by simp
  qed
qed (simp_all add: member_tag_def)

lemma AnyXml_members_step:
  assumes "marshalMapToXmlIndent env False (fst (member_tag et vv)) (snd (member_tag et vv)) p
       = (out, err, p')"
  shows "AnyXml_members env et (vv # vs) s p =
      (if err \<noteq> None then (s @ out, err) else AnyXml_members env et vs (s @ out) p')"
  by (simp only: AnyXml_members.simps member_step assms prod.case)

lemma AnyXml_members_text:
  "fst (AnyXml_members env et vs s p) = s @ members_text env et vs p"
proof (induction vs arbitrary: s p)
  case Nil
  then show ?case by simp
next
  case (Cons vv vs)
  obtain out err p' where h:
    "marshalMapToXmlIndent env False (fst (member_tag et vv)) (snd (member_tag et vv)) p
       = (out, err, p')"
    by (cases "marshalMapToXmlIndent env False (fst (member_tag et vv)) (snd (member_tag et vv)) p")
  show ?case using AnyXml_members_step [OF h, of vs s] Cons.IH [of "s @ out" p'] h by simp
qed

text \<open>
  For a list, \<^verbatim>\<open>AnyXml\<close> writes the opening root tag, the text of the members and the
  closing root tag, and returns no error. A member that is a mapping with exactly one key
  is encoded under that key, with the value of the key; every other member is encoded
  under the element tag of the caller, which is "element" when the caller gives the root
  tag alone. When \<^verbatim>\<open>marshalMapToXmlIndent\<close> writes \<^verbatim>\<open><item>x</item>\<close> for the string "x"
  under "item" and \<^verbatim>\<open><y>z</y>\<close> for "z" under "y", the list \<^verbatim>\<open>["x", {"y": "z"}]\<close> with the
  root tag "r" and the element tag "item" gives \<^verbatim>\<open><r><item>x</item><y>z</y></r>\<close>.
\<close>

lemma AnyXml_list_text:
  "AnyXml env (GList vs) [rt, et] =
     (''<'' @ rt @ ''>'' @ members_text env et vs (new_pretty env) @ ''</'' @ rt @ ''>'', None)
   \<and> AnyXml env (GList vs) [rt] =
     (''<'' @ rt @ ''>'' @ members_text env ''element'' vs (new_pretty env) @ ''</'' @ rt @ ''>'', None)
   \<and> member_tag et (GMap [(k, v)]) = (k, v)
   \<and> (length m \<noteq> 1 \<longrightarrow> member_tag et (GMap m) = (et, GMap m))
   \<and> member_tag et GNil = (et, GNil)
   \<and> member_tag et (GStr x) = (et, GStr x)
   \<and> member_tag et (GFloat f) = (et, GFloat f)
   \<and> member_tag et (GBool b) = (et, GBool b)
   \<and> member_tag et (GList ws) = (et, GList ws)
   \<and> (marshalMapToXmlIndent env False ''item'' (GStr ''x'') (new_pretty env)
          = (''<item>x</item>'', None, p1)
        \<and> marshalMapToXmlIndent env False ''y'' (GStr ''z'') p1 = (''<y>z</y>'', None, p2) \<longrightarrow>
        AnyXml env (GList [GStr ''x'', GMap [(''y'', GStr ''z'')]]) [''r'', ''item'']
          = (''<r><item>x</item><y>z</y></r>'', None))"
proof -
  have a: "AnyXml env (GList vs) tags =
     (''<'' @ root_tag env tags @ ''>'' @ members_text env (element_tag tags) vs (new_pretty env)
        @ ''</'' @ root_tag env tags @ ''>'', None)" for tags
  proof -
    obtain s err where r: "AnyXml_members env (element_tag tags) vs (''<'' @ root_tag env tags @ ''>'')
        (new_pretty env) = (s, err)"
      by (cases "AnyXml_members env (element_tag tags) vs (''<'' @ root_tag env tags @ ''>'')
        (new_pretty env)")
    from AnyXml_members_text [of env "element_tag tags" vs "''<'' @ root_tag env tags @ ''>''"
        "new_pretty env"] r
    have "s = (''<'' @ root_tag env tags @ ''>'') @ members_text env (element_tag tags) vs (new_pretty env)"
      by simp
    with r show ?thesis
      by (simp add: AnyXml_def Let_def)
  qed
  have m: "length m \<noteq> 1 \<longrightarrow> member_tag et (GMap m) = (et, GMap m)"
    using member_tag_several by blast
  have e: "marshalMapToXmlIndent env False ''item'' (GStr ''x'') (new_pretty env)
          = (''<item>x</item>'', None, p1)
        \<and> marshalMapToXmlIndent env False ''y'' (GStr ''z'') p1 = (''<y>z</y>'', None, p2) \<longrightarrow>
        AnyXml env (GList [GStr ''x'', GMap [(''y'', GStr ''z'')]]) [''r'', ''item'']
          = (''<r><item>x</item><y>z</y></r>'', None)"
    by (simp add: AnyXml_def root_tag_def element_tag_def)
  show ?thesis
    using a [of "[rt, et]"] a [of "[rt]"] m e
    by (simp add: root_tag_def element_tag_def DefaultElementTag_def member_tag_def)
qed

lemma AnyXml_list_example:
  "AnyXml sample_env (GList [GStr ''x'', GMap [(''y'', GStr ''z'')]]) [''r'', ''item'']
       = (''<r><item>x</item><y>z</y></r>'', None)
   \<and> AnyXml sample_env (GList [GStr ''x'', GMap [(''y'', GStr ''z'')]]) [''r'']
       = (''<r><element>x</element><y>z</y></r>'', None)"
  by (simp add: AnyXml_def root_tag_def element_tag_def DefaultElementTag_def sample_env_def
      marshal_sample_def new_pretty_def)

text \<open>
  C5, at a list with a member whose encoding fails. The loop over the members stops at
  the first member for which \<^verbatim>\<open>marshalMapToXmlIndent\<close> returns an error, and the write of
  the closing tag then assigns \<open>err\<close> again: \<^verbatim>\<open>AnyXml\<close> returns the root tag around what was
  written up to there and no error, and the members after that one are not encoded,
  neither under a key of their own nor under the element tag.
\<close>

theorem AnyXml_list_error:
  "marshalMapToXmlIndent env False (fst (member_tag et vv)) (snd (member_tag et vv)) (new_pretty env)
       = (out, Some e, p') \<longrightarrow>
   AnyXml_members env et (vv # vs) s (new_pretty env) = (s @ out, Some e)
   \<and> AnyXml env (GList (vv # vs)) [rt, et] = (''<'' @ rt @ ''>'' @ out @ ''</'' @ rt @ ''>'', None)"
proof
  assume h: "marshalMapToXmlIndent env False (fst (member_tag et vv)) (snd (member_tag et vv))
       (new_pretty env) = (out, Some e, p')"
  have s: "AnyXml_members env et (vv # vs) s (new_pretty env) = (s @ out, Some e)" for s
    using AnyXml_members_step [OF h, of vs s] by simp
  have "AnyXml env (GList (vv # vs)) [rt, et] = (''<'' @ rt @ ''>'' @ out @ ''</'' @ rt @ ''>'', None)"
    using s [of "''<'' @ rt @ ''>''"]
    by (simp add: AnyXml_def root_tag_def element_tag_def)
  with s show "AnyXml_members env et (vv # vs) s (new_pretty env) = (s @ out, Some e)
   \<and> AnyXml env (GList (vv # vs)) [rt, et] = (''<'' @ rt @ ''>'' @ out @ ''</'' @ rt @ ''>'', None)"
    by blast
qed

theorem AnyXml_list_error_witness:
  "marshalMapToXmlIndent sample_env False (fst (member_tag ''item'' (GMap [([], GStr ''x'')])))
       (snd (member_tag ''item'' (GMap [([], GStr ''x'')]))) (new_pretty sample_env)
     = ([], Some (HelperError ''invalid tag name''), new_pretty sample_env)
   \<and> AnyXml sample_env (GList [GMap [([], GStr ''x'')], GStr ''y'']) [''r'', ''item'']
       = (''<r></r>'', None)
   \<and> AnyXml sample_env (GList [GStr ''y'']) [''r'', ''item''] = (''<r><item>y</item></r>'', None)"
proof -
  have h: "marshalMapToXmlIndent sample_env False (fst (member_tag ''item'' (GMap [([], GStr ''x'')])))
       (snd (member_tag ''item'' (GMap [([], GStr ''x'')]))) (new_pretty sample_env)
     = ([], Some (HelperError ''invalid tag name''), new_pretty sample_env)"
    by (simp add: member_tag_def sample_env_def marshal_sample_def)
  have y: "AnyXml sample_env (GList [GStr ''y'']) [''r'', ''item''] = (''<r><item>y</item></r>'', None)"
    by (simp add: AnyXml_def root_tag_def element_tag_def sample_env_def marshal_sample_def
        new_pretty_def)
  from AnyXml_list_error [where env = sample_env and et = "''item''"
      and vv = "GMap [([], GStr ''x'')]" and out = "[]"
      and e = "HelperError ''invalid tag name''" and p' = "new_pretty sample_env"
      and vs = "[GStr ''y'']" and rt = "''r''" and s = "[]"] h
  have "AnyXml sample_env (GList [GMap [([], GStr ''x'')], GStr ''y'']) [''r'', ''item'']
       = (''<r></r>'', None)"
    by simp
  with h y show ?thesis by (intro conjI)
qed

end
